theory Spec2Isabelle
  imports Complex_Main "HOL-Library.Word"
begin

section \<open>CIFAR-10 driver of the ResNet model: constants and errors\<close>

text \<open>
  The embedded file is \<^verbatim>\<open>official/resnet/cifar10_main.py\<close>. Python integers are
  \<^typ>\<open>int\<close> where they can be negative (the \<^verbatim>\<open>resnet_size\<close> flag) and \<^typ>\<open>nat\<close>
  where they are sizes; a byte of a raw record is an \<^typ>\<open>8 word\<close>; a float32 that only ever
  holds an integer between 0 and 255, or 0.0 and 1.0, is the \<^typ>\<open>real\<close> of the same value.
\<close>

definition HEIGHT :: nat where "HEIGHT = 32"
definition WIDTH :: nat where "WIDTH = 32"
definition NUM_CHANNELS :: nat where "NUM_CHANNELS = 3"
definition DEFAULT_IMAGE_SIZE :: nat where
  "DEFAULT_IMAGE_SIZE = HEIGHT * WIDTH * NUM_CHANNELS"
definition NUM_CLASSES :: nat where "NUM_CLASSES = 10"
definition NUM_DATA_FILES :: nat where "NUM_DATA_FILES = 5"
definition NUM_IMAGES_train :: nat where "NUM_IMAGES_train = 50000"
definition NUM_IMAGES_validation :: nat where "NUM_IMAGES_validation = 10000"

text \<open>
  Every way the file, or a framework operation it calls, can stop with an exception.
  \<open>ValueError\<close> carries the two arguments the source gives it; \<open>AssertionError\<close> carries
  the message of the \<^verbatim>\<open>assert\<close>. The next three are the framework's error classes, and
  \<open>ConfigError\<close> is the one the specification gives the learning rate schedule.
\<close>

datatype error =
    AssertionError string
  | ValueError string int
  | InvalidArgumentError
  | OutOfRangeError
  | NotFoundError
  | ConfigError

section \<open>The model's layer configuration\<close>

text \<open>
  \<^verbatim>\<open>Cifar10Model._get_layers\<close>: Python's \<^verbatim>\<open>%\<close> and \<^verbatim>\<open>//\<close> with a positive divisor
  round towards minus infinity, as \<open>mod\<close> and \<open>div\<close> on \<^typ>\<open>int\<close> do;
  \<^verbatim>\<open>[num_blocks] * 3\<close> repeats the one-element list three times.
\<close>

definition get_layers :: "int \<Rightarrow> error + int list" where
  "get_layers resnet_size =
     (if resnet_size mod 6 \<noteq> 2
      then Inl (ValueError ''resnet_size must be 6n + 2:'' resnet_size)
      else let num_blocks = (resnet_size - 2) div 6
           in Inr (replicate 3 num_blocks))"

definition get_stride_sizes :: "int list" where
  "get_stride_sizes = [1, 1, 2, 2, 1]"

text \<open>
  \<^verbatim>\<open>Cifar10Model.__init__\<close> hands these keyword arguments to the base class
  \<^verbatim>\<open>resnet_model.Model\<close>, which is not part of this file; the record is the argument list.
  The arguments are evaluated in the order written, so \<^verbatim>\<open>_get_layers\<close> raises before
  \<^verbatim>\<open>_get_stride_sizes\<close> is called.
\<close>

record model_params =
  resnet_size :: int
  num_classes :: nat
  num_filters :: nat
  kernel_size :: nat
  first_pool_size :: "nat option"
  second_pool_size :: nat
  layers :: "int list"
  stride_sizes :: "int list"
  final_size :: nat

definition Cifar10Model_init :: "int \<Rightarrow> error + model_params" where
  "Cifar10Model_init sz =
     (case get_layers sz of
        Inl e \<Rightarrow> Inl e
      | Inr ls \<Rightarrow>
          Inr \<lparr> resnet_size = sz, num_classes = NUM_CLASSES, num_filters = 16,
                kernel_size = 3, first_pool_size = None, second_pool_size = 8,
                layers = ls, stride_sizes = get_stride_sizes, final_size = 64 \<rparr>)"

section \<open>Decoding one record\<close>

text \<open>
  A tensor of rank one is a list, of rank three a list of lists of lists, outermost axis
  first. The framework operations \<^verbatim>\<open>parse_record\<close> calls are modelled after their
  documentation:
  \<^item> \<^verbatim>\<open>tf.decode_raw(s, tf.uint8)\<close> is the vector of the bytes of \<open>s\<close>;
  \<^item> \<^verbatim>\<open>v[0]\<close> is the first element, an error on the empty vector;
  \<^item> \<^verbatim>\<open>v[lo:hi]\<close> clamps both bounds to the length of \<open>v\<close>, as a Python slice does;
  \<^item> \<^verbatim>\<open>tf.one_hot(i, depth)\<close> has 1.0 at position \<open>i\<close> and 0.0 elsewhere, and is all
    0.0 when \<open>i\<close> is not a position of the vector;
  \<^item> \<^verbatim>\<open>tf.reshape\<close> fails unless the element counts agree and then cuts the row-major
    sequence of elements into rows;
  \<^item> \<^verbatim>\<open>tf.transpose(t, [1, 2, 0])\<close> makes axis 1 the outermost axis and axis 0 the
    innermost one;
  \<^item> \<^verbatim>\<open>tf.cast\<close> from uint8 to int32 or float32 keeps the value (every integer from 0
    to 255 is a float32).
\<close>

type_synonym byte = "8 word"
type_synonym image = "real list list list"

definition decode_raw :: "byte list \<Rightarrow> byte list" where
  "decode_raw raw_record = raw_record"

definition index0 :: "'a list \<Rightarrow> error + 'a" where
  "index0 v = (case v of [] \<Rightarrow> Inl InvalidArgumentError | x # _ \<Rightarrow> Inr x)"

definition slice :: "nat \<Rightarrow> nat \<Rightarrow> 'a list \<Rightarrow> 'a list" where
  "slice lo hi v = take (hi - lo) (drop lo v)"

definition one_hot :: "int \<Rightarrow> nat \<Rightarrow> real list" where
  "one_hot i depth = map (\<lambda>k. if int k = i then 1 else 0) [0..<depth]"

fun chunks :: "nat \<Rightarrow> nat \<Rightarrow> 'a list \<Rightarrow> 'a list list" where
  "chunks 0 n xs = []"
| "chunks (Suc k) n xs = take n xs # chunks k n (drop n xs)"

definition reshape3 :: "nat \<Rightarrow> nat \<Rightarrow> nat \<Rightarrow> 'a list \<Rightarrow> error + 'a list list list" where
  "reshape3 d0 d1 d2 v =
     (if length v \<noteq> d0 * d1 * d2 then Inl InvalidArgumentError
      else Inr (map (chunks d1 d2) (chunks d0 (d1 * d2) v)))"

definition transpose_120 :: "'a list list list \<Rightarrow> 'a list list list" where
  "transpose_120 t = map transpose (transpose t)"

definition cast_int32 :: "byte \<Rightarrow> int" where
  "cast_int32 b = uint b"

definition cast_float32 :: "byte \<Rightarrow> real" where
  "cast_float32 b = real (unat b)"

definition label_bytes :: nat where "label_bytes = 1"

definition record_bytes :: nat where
  "record_bytes = label_bytes + DEFAULT_IMAGE_SIZE"

definition parse_record :: "byte list \<Rightarrow> error + (image \<times> real list)" where
  "parse_record raw_record =
     (let record_vector = decode_raw raw_record in
      case index0 record_vector of
        Inl e \<Rightarrow> Inl e
      | Inr b \<Rightarrow>
          (let label = one_hot (cast_int32 b) NUM_CLASSES in
           case reshape3 NUM_CHANNELS HEIGHT WIDTH
                  (slice label_bytes record_bytes record_vector) of
             Inl e \<Rightarrow> Inl e
           | Inr depth_major \<Rightarrow>
               Inr (map (map (map cast_float32)) (transpose_120 depth_major), label)))"

section \<open>Preprocessing one image\<close>

text \<open>
  The random numbers one training image consumes: the three integers, one for each
  axis, that \<^verbatim>\<open>tf.random_crop\<close> reduces modulo the number of possible offsets, and the
  uniform number in [0, 1) that \<^verbatim>\<open>tf.image.random_flip_left_right\<close> compares with 0.5.
\<close>

record draws =
  crop_row :: nat
  crop_col :: nat
  crop_chan :: nat
  flip_u :: real

definition img_width :: "'a list list \<Rightarrow> nat" where
  "img_width img = (case img of [] \<Rightarrow> 0 | r # _ \<Rightarrow> length r)"

definition img_depth :: "'a list list list \<Rightarrow> nat" where
  "img_depth img = (case img of [] \<Rightarrow> 0 | r # _ \<Rightarrow> img_width r)"

text \<open>
  \<^verbatim>\<open>tf.image.resize_image_with_crop_or_pad\<close>, one axis at a time: an axis longer than
  the target is cropped centrally, a shorter one is padded with zeros, the smaller half
  of the padding first.
\<close>

definition crop_or_pad_axis :: "nat \<Rightarrow> 'a \<Rightarrow> 'a list \<Rightarrow> 'a list" where
  "crop_or_pad_axis target z xs =
     (let n = length xs in
      if target \<le> n then take target (drop ((n - target) div 2) xs)
      else replicate ((target - n) div 2) z @ xs
             @ replicate (target - n - (target - n) div 2) z)"

definition resize_image_with_crop_or_pad :: "image \<Rightarrow> nat \<Rightarrow> nat \<Rightarrow> image" where
  "resize_image_with_crop_or_pad img target_height target_width =
     (let zero_pixel = replicate (img_depth img) 0;
          zero_row = replicate target_width zero_pixel
      in crop_or_pad_axis target_height zero_row
           (map (crop_or_pad_axis target_width zero_pixel) img))"

text \<open>
  \<^verbatim>\<open>tf.random_crop(value, size)\<close> asserts that no axis of \<open>value\<close> is shorter than
  \<open>size\<close> asks, then takes the window at offset \<open>draw mod (shape - size + 1)\<close>.
\<close>

definition random_crop :: "draws \<Rightarrow> image \<Rightarrow> nat \<Rightarrow> nat \<Rightarrow> nat \<Rightarrow> error + image" where
  "random_crop d img h w c =
     (if length img < h \<or> img_width img < w \<or> img_depth img < c
      then Inl InvalidArgumentError
      else let off_h = crop_row d mod (length img - h + 1);
               off_w = crop_col d mod (img_width img - w + 1);
               off_c = crop_chan d mod (img_depth img - c + 1)
           in Inr (map (\<lambda>row. map (\<lambda>px. take c (drop off_c px)) (take w (drop off_w row)))
                     (take h (drop off_h img))))"

definition random_flip_left_right :: "draws \<Rightarrow> image \<Rightarrow> image" where
  "random_flip_left_right d img = (if flip_u d < 1 / 2 then map rev img else img)"

text \<open>
  \<^verbatim>\<open>tf.image.per_image_standardization\<close>, with the framework's float32 arithmetic
  replaced by the real numbers: the mean of all elements is subtracted and the result
  is divided by the larger of the standard deviation and \<open>1 / sqrt n\<close>, \<open>n\<close> the number of
  elements. Rounding is outside this model.
\<close>

definition elements :: "image \<Rightarrow> real list" where
  "elements img = concat (concat img)"

definition reduce_mean :: "real list \<Rightarrow> real" where
  "reduce_mean xs = sum_list xs / real (length xs)"

definition pixel_value_scale :: "image \<Rightarrow> real" where
  "pixel_value_scale img =
     (let xs = elements img;
          variance = max 0 (reduce_mean (map (\<lambda>x. x * x) xs) - reduce_mean xs * reduce_mean xs);
          stddev = sqrt variance;
          min_stddev = 1 / sqrt (real (length xs))
      in max stddev min_stddev)"

definition per_image_standardization :: "image \<Rightarrow> image" where
  "per_image_standardization img =
     map (map (map (\<lambda>x. (x - reduce_mean (elements img)) / pixel_value_scale img))) img"

definition preprocess_image :: "draws \<Rightarrow> image \<Rightarrow> bool \<Rightarrow> error + image" where
  "preprocess_image d img is_training =
     (if is_training then
        (case random_crop d (resize_image_with_crop_or_pad img (HEIGHT + 8) (WIDTH + 8))
                HEIGHT WIDTH NUM_CHANNELS of
           Inl e \<Rightarrow> Inl e
         | Inr cropped \<Rightarrow> Inr (per_image_standardization (random_flip_left_right d cropped)))
      else Inr (per_image_standardization img))"

section \<open>The input pipeline\<close>

text \<open>
  The file system is a map from paths to what is there; \<^verbatim>\<open>os.path.exists\<close> asks
  whether anything is. \<^verbatim>\<open>os.path.join\<close> is the POSIX one, for two components, and
  \<^verbatim>\<open>'%d' % i\<close> writes a natural number in decimal.
\<close>

datatype node = Directory | File "byte list"

type_synonym filesystem = "string \<rightharpoonup> node"

definition path_exists :: "filesystem \<Rightarrow> string \<Rightarrow> bool" where
  "path_exists fs p = (fs p \<noteq> None)"

definition path_join :: "string \<Rightarrow> string \<Rightarrow> string" where
  "path_join a b =
     (if (case b of [] \<Rightarrow> False | c # _ \<Rightarrow> c = CHR ''/'') then b
      else if a = [] \<or> last a = CHR ''/'' then a @ b
      else a @ ''/'' @ b)"

fun format_d :: "nat \<Rightarrow> string" where
  "format_d n =
     (if n < 10 then [''0123456789'' ! n]
      else format_d (n div 10) @ [''0123456789'' ! (n mod 10)])"

declare format_d.simps [simp del]

definition get_filenames :: "filesystem \<Rightarrow> bool \<Rightarrow> string \<Rightarrow> error + string list" where
  "get_filenames fs is_training data_dir =
     (let data_dir = path_join data_dir ''cifar-10-batches-bin'' in
      if \<not> path_exists fs data_dir
      then Inl (AssertionError
             ''Run cifar10_download_and_extract.py first to download and extract the CIFAR-10 data.'')
      else if is_training
      then Inr (map (\<lambda>i. path_join data_dir (''data_batch_'' @ format_d i @ ''.bin''))
                  [1..<NUM_DATA_FILES + 1])
      else Inr [path_join data_dir ''test_batch.bin''])"

text \<open>
  A dataset is the sequence of elements an iterator over it yields, and how the iteration
  ends: \<open>None\<close> for the end of the data, \<open>Some e\<close> for the error that stops it. Only a
  finite number of epochs is modelled (\<^verbatim>\<open>num_epochs\<close> is a natural number).

  \<^verbatim>\<open>tf.data.FixedLengthRecordDataset\<close> reads the files in order and cuts each into
  records of \<open>n\<close> bytes. When the iterator comes to a file that is missing, or whose
  length is not a multiple of \<open>n\<close>, the iteration stops with an error, after the records
  of the files before it and with none of its own. Which error a path that is a directory
  gives depends on the platform; the invalid-argument error stands for it.
\<close>

type_synonym 'a dataset = "'a list \<times> error option"

definition read_records :: "filesystem \<Rightarrow> nat \<Rightarrow> string \<Rightarrow> byte list dataset" where
  "read_records fs n f =
     (case fs f of
        None \<Rightarrow> ([], Some NotFoundError)
      | Some Directory \<Rightarrow> ([], Some InvalidArgumentError)
      | Some (File bs) \<Rightarrow>
          (if length bs mod n = 0 then (chunks (length bs div n) n bs, None)
           else ([], Some InvalidArgumentError)))"

fun FixedLengthRecordDataset :: "filesystem \<Rightarrow> string list \<Rightarrow> nat \<Rightarrow> byte list dataset" where
  "FixedLengthRecordDataset fs [] n = ([], None)"
| "FixedLengthRecordDataset fs (f # fns) n =
     (case read_records fs n f of
        (rs, Some e) \<Rightarrow> (rs, Some e)
      | (rs, None) \<Rightarrow>
          (case FixedLengthRecordDataset fs fns n of (rs', e) \<Rightarrow> (rs @ rs', e)))"

definition dataset_record_bytes :: nat where
  "dataset_record_bytes = DEFAULT_IMAGE_SIZE + 1"

definition record_dataset :: "filesystem \<Rightarrow> string list \<Rightarrow> byte list dataset" where
  "record_dataset fs filenames = FixedLengthRecordDataset fs filenames dataset_record_bytes"

text \<open>
  \<^verbatim>\<open>Dataset.shuffle(buffer_size)\<close>: before each element it yields, the iterator fills
  its buffer from the input, up to \<open>buffer_size\<close> elements, and then yields a random
  element of the buffer. An error of the input surfaces when the filling reaches it.
  \<open>r k\<close> is the random number of the \<open>k\<close>-th step.
\<close>

function shuffle_from ::
  "nat \<Rightarrow> (nat \<Rightarrow> nat) \<Rightarrow> nat \<Rightarrow> 'a list \<Rightarrow> 'a list \<Rightarrow> error option \<Rightarrow> 'a dataset" where
  "shuffle_from buffer_size r k buf inp e =
     (if length (buf @ take (buffer_size - length buf) inp) < buffer_size \<and> e \<noteq> None
      then ([], e)
      else if buf @ take (buffer_size - length buf) inp = [] then ([], None)
      else (case shuffle_from buffer_size r (Suc k)
                   (take (r k mod length (buf @ take (buffer_size - length buf) inp))
                      (buf @ take (buffer_size - length buf) inp)
                    @ drop (Suc (r k mod length (buf @ take (buffer_size - length buf) inp)))
                        (buf @ take (buffer_size - length buf) inp))
                   (drop (buffer_size - length buf) inp) e of
              (out, e') \<Rightarrow>
                ((buf @ take (buffer_size - length buf) inp)
                   ! (r k mod length (buf @ take (buffer_size - length buf) inp)) # out, e')))"
  by pat_completeness auto
termination
proof (relation "measure (\<lambda>(b, r, k, buf, inp, e). length buf + length inp)")
  show "wf (measure (\<lambda>(b, r, k, buf, inp, e). length buf + length (inp :: 'a list)))"
    by simp
next
  fix buffer_size :: nat and r :: "nat \<Rightarrow> nat" and k :: nat
    and buf inp :: "'a list" and e :: "error option"
  let ?buf = "buf @ take (buffer_size - length buf) inp"
  assume "\<not> (length ?buf < buffer_size \<and> e \<noteq> None)" and ne: "?buf \<noteq> []"
  have shorter: "length (take j xs @ drop (Suc j) xs) < length xs"
    if "j < length xs" for j and xs :: "'a list"
    using that by simp
  have "r k mod length ?buf < length ?buf" using ne by simp
  then have less: "length (take (r k mod length ?buf) ?buf @ drop (Suc (r k mod length ?buf)) ?buf)
             < length ?buf"
    by (rule shorter)
  have same: "length ?buf + length (drop (buffer_size - length buf) inp)
                 = length buf + length inp"
    by (simp add: min_def)
  have "length (take (r k mod length ?buf) ?buf @ drop (Suc (r k mod length ?buf)) ?buf)
          + length (drop (buffer_size - length buf) inp) < length buf + length inp"
    using less same by linarith
  then show
    "((buffer_size, r, Suc k,
       take (r k mod length ?buf) ?buf @ drop (Suc (r k mod length ?buf)) ?buf,
       drop (buffer_size - length buf) inp, e),
      (buffer_size, r, k, buf, inp, e))
     \<in> measure (\<lambda>(b, r, k, buf, inp, e). length buf + length inp)"
    unfolding in_measure by (simp only: prod.case)
qed

declare shuffle_from.simps [simp del]

definition ds_shuffle :: "nat \<Rightarrow> (nat \<Rightarrow> nat) \<Rightarrow> 'a dataset \<Rightarrow> 'a dataset" where
  "ds_shuffle buffer_size r ds =
     (if buffer_size = 0 then ([], Some InvalidArgumentError)
      else shuffle_from buffer_size r 0 [] (fst ds) (snd ds))"

text \<open>
  \<^verbatim>\<open>Dataset.map(f)\<close> yields \<open>f\<close> of each element until \<open>f\<close> fails, or the input ends or
  fails. The function is given the position of the element so that it can draw its own
  random numbers.
\<close>

fun ds_map_from :: "(nat \<Rightarrow> 'a \<Rightarrow> error + 'b) \<Rightarrow> nat \<Rightarrow> 'a list \<Rightarrow> error option \<Rightarrow> 'b dataset" where
  "ds_map_from f i [] e = ([], e)"
| "ds_map_from f i (x # xs) e =
     (case f i x of
        Inl err \<Rightarrow> ([], Some err)
      | Inr y \<Rightarrow> (case ds_map_from f (Suc i) xs e of (ys, e') \<Rightarrow> (y # ys, e')))"

definition ds_map :: "(nat \<Rightarrow> 'a \<Rightarrow> error + 'b) \<Rightarrow> 'a dataset \<Rightarrow> 'b dataset" where
  "ds_map f ds = ds_map_from f 0 (fst ds) (snd ds)"

text \<open>
  \<^verbatim>\<open>Dataset.repeat(count)\<close> iterates over its input \<open>count\<close> times, afresh each time
  (\<open>epoch k\<close> is the \<open>k\<close>-th iteration), and stops at the first error.
\<close>

fun ds_repeat_from :: "nat \<Rightarrow> nat \<Rightarrow> (nat \<Rightarrow> 'a dataset) \<Rightarrow> 'a dataset" where
  "ds_repeat_from k 0 epoch = ([], None)"
| "ds_repeat_from k (Suc n) epoch =
     (case epoch k of
        (xs, Some e) \<Rightarrow> (xs, Some e)
      | (xs, None) \<Rightarrow> (case ds_repeat_from (Suc k) n epoch of (ys, e) \<Rightarrow> (xs @ ys, e)))"

definition ds_repeat :: "nat \<Rightarrow> (nat \<Rightarrow> 'a dataset) \<Rightarrow> 'a dataset" where
  "ds_repeat count epoch = ds_repeat_from 0 count epoch"

text \<open>
  \<^verbatim>\<open>Dataset.batch(batch_size)\<close> collects \<open>batch_size\<close> consecutive elements into one
  batch. When the input ends, the elements collected so far, if any, are a last, smaller
  batch; when the input fails, the error is raised instead of them. A batch size of zero
  is an error. A batch is the list of its samples.
\<close>

definition ds_batch :: "nat \<Rightarrow> 'a dataset \<Rightarrow> 'a list dataset" where
  "ds_batch batch_size ds =
     (if batch_size = 0 then ([], Some InvalidArgumentError)
      else let xs = fst ds;
               full = chunks (length xs div batch_size) batch_size xs;
               rest = drop (length xs div batch_size * batch_size) xs
           in case snd ds of
                Some e \<Rightarrow> (full, Some e)
              | None \<Rightarrow> (if rest = [] then full else full @ [rest], None))"

text \<open>
  The random numbers of a run: for each epoch those of the shuffle, and those of each
  image of the epoch.
\<close>

record rng =
  shuffle_draw :: "nat \<Rightarrow> nat \<Rightarrow> nat"
  image_draws :: "nat \<Rightarrow> nat \<Rightarrow> draws"

type_synonym sample = "image \<times> real list"

text \<open>
  \<^verbatim>\<open>input_fn\<close>. \<open>input_fn_epoch\<close> is the dataset before \<^verbatim>\<open>repeat\<close>, in the epoch
  given; \<^verbatim>\<open>prefetch\<close> does not change the sequence. The \<^verbatim>\<open>assert\<close> of
  \<^verbatim>\<open>get_filenames\<close> is raised by the call of \<^verbatim>\<open>input_fn\<close> itself (\<open>Inl\<close>); every other
  error ends the iteration over the dataset that \<^verbatim>\<open>input_fn\<close> returns.
\<close>

definition input_fn_epoch ::
  "filesystem \<Rightarrow> rng \<Rightarrow> bool \<Rightarrow> string list \<Rightarrow> nat \<Rightarrow> sample dataset" where
  "input_fn_epoch fs g is_training filenames epoch =
     (let dataset = record_dataset fs filenames;
          dataset = (if is_training
                     then ds_shuffle NUM_IMAGES_train (shuffle_draw g epoch) dataset
                     else dataset);
          dataset = ds_map (\<lambda>i. parse_record) dataset;
          dataset = ds_map (\<lambda>i (image, label).
                       case preprocess_image (image_draws g epoch i) image is_training of
                         Inl e \<Rightarrow> Inl e
                       | Inr image' \<Rightarrow> Inr (image', label)) dataset
      in dataset)"

definition input_fn ::
  "filesystem \<Rightarrow> rng \<Rightarrow> bool \<Rightarrow> string \<Rightarrow> nat \<Rightarrow> nat \<Rightarrow> error + sample list dataset" where
  "input_fn fs g is_training data_dir batch_size num_epochs =
     (case get_filenames fs is_training data_dir of
        Inl e \<Rightarrow> Inl e
      | Inr filenames \<Rightarrow>
          Inr (ds_batch batch_size
                 (ds_repeat num_epochs (input_fn_epoch fs g is_training filenames))))"

section \<open>The learning rate schedule\<close>

text \<open>
  Modelled from the spec: \<^verbatim>\<open>resnet_shared.learning_rate_with_decay\<close> is defined in
  \<^verbatim>\<open>resnet_shared.py\<close>, which is not among the sources; this is the specification's
  \<open>build_lr_schedule\<close> (section 4.2), over the real numbers: the base rate is
  \<open>0.1 * batch_size / batch_denom\<close>, boundary \<open>i\<close> is
  \<open>floor (num_train_images / batch_size) * boundary_epochs[i]\<close>, rate \<open>i\<close> is
  \<open>base_rate * decay_rates[i]\<close>, and a number of decay rates other than the number of
  boundaries plus one is a configuration error. The specification defines no schedule
  for a \<open>batch_size\<close> or a \<open>batch_denom\<close> of zero, by which its formulas divide; here
  that is a configuration error as well.
\<close>

record lr_schedule =
  base_rate :: real
  boundaries :: "int list"
  rates :: "real list"

definition learning_rate_with_decay ::
  "int \<Rightarrow> int \<Rightarrow> int \<Rightarrow> int list \<Rightarrow> real list \<Rightarrow> error + lr_schedule" where
  "learning_rate_with_decay batch_size batch_denom num_images boundary_epochs decay_rates =
     (if length decay_rates \<noteq> length boundary_epochs + 1 then Inl ConfigError
      else if batch_size = 0 \<or> batch_denom = 0 then Inl ConfigError
      else let initial = (1 / 10) * real_of_int batch_size / real_of_int batch_denom
           in Inr \<lparr> base_rate = initial,
                    boundaries = map (\<lambda>epoch. (num_images div batch_size) * epoch) boundary_epochs,
                    rates = map (\<lambda>decay. initial * decay) decay_rates \<rparr>)"

text \<open>
  Modelled from the spec: the schedule's \<open>lookup\<close> (section 4.2), the rate whose index is
  the number of boundaries that are at most the global step.
\<close>

definition lookup :: "lr_schedule \<Rightarrow> int \<Rightarrow> real" where
  "lookup s global_step = rates s ! length (filter (\<lambda>b. b \<le> global_step) (boundaries s))"

text \<open>
  The call in \<^verbatim>\<open>cifar10_model_fn\<close>, with the arguments the source gives it; the batch
  size comes from \<^verbatim>\<open>params\<close>.
\<close>

definition cifar10_learning_rate_fn :: "int \<Rightarrow> error + lr_schedule" where
  "cifar10_learning_rate_fn batch_size =
     learning_rate_with_decay batch_size 128 (int NUM_IMAGES_train) [100, 150, 200]
       [1, 1 / 10, 1 / 100, 1 / 1000]"

section \<open>Properties of the layer configuration\<close>

text \<open>
  Claim C2. For every \<open>resnet_size\<close> that is 2 modulo 6 the layer list has exactly three
  entries, each equal to \<open>(resnet_size - 2) div 6\<close>; the division is exact (six times the
  quotient gives \<open>resnet_size - 2\<close> back); and the stride list handed to the model is
  \<open>[1, 1, 2, 2, 1]\<close>.
\<close>

theorem stage_layout_of_valid_size:
  assumes "sz mod 6 = 2"
  shows "\<exists>p. Cifar10Model_init sz = Inr p
           \<and> get_layers sz = Inr (layers p)
           \<and> layers p = [(sz - 2) div 6, (sz - 2) div 6, (sz - 2) div 6]
           \<and> length (layers p) = 3
           \<and> 6 * ((sz - 2) div 6) = sz - 2
           \<and> stride_sizes p = [1, 1, 2, 2, 1]"
proof -
  have exact: "6 * ((sz - 2) div 6) = sz - 2"
    using assms by presburger
  have ls: "get_layers sz = Inr [(sz - 2) div 6, (sz - 2) div 6, (sz - 2) div 6]"
    using assms by (simp add: get_layers_def Let_def numeral_3_eq_3)
  show ?thesis
    using exact ls by (simp add: Cifar10Model_init_def get_stride_sizes_def)
qed

theorem stage_layout_of_valid_size_witness:
  "(32::int) mod 6 = 2
   \<and> (\<exists>p. Cifar10Model_init 32 = Inr p
           \<and> get_layers 32 = Inr (layers p)
           \<and> layers p = [5, 5, 5]
           \<and> length (layers p) = 3
           \<and> stride_sizes p = [1, 1, 2, 2, 1])"
proof -
  have h: "(32::int) mod 6 = 2" by simp
  show ?thesis using h stage_layout_of_valid_size [OF h] by simp
qed

text \<open>
  Claim C5. For every \<open>resnet_size\<close> that is not 2 modulo 6, \<open>_get_layers\<close> raises the
  \<open>ValueError\<close> and the model's constructor raises with it: no layer list and no
  parameter record is produced.
\<close>

theorem stage_layout_rejects_other_sizes:
  assumes "sz mod 6 \<noteq> 2"
  shows "get_layers sz = Inl (ValueError ''resnet_size must be 6n + 2:'' sz)
         \<and> Cifar10Model_init sz = Inl (ValueError ''resnet_size must be 6n + 2:'' sz)
         \<and> (\<forall>ls. get_layers sz \<noteq> Inr ls)
         \<and> (\<forall>p. Cifar10Model_init sz \<noteq> Inr p)"
  using assms by (simp add: get_layers_def Cifar10Model_init_def)

theorem stage_layout_rejects_other_sizes_witness:
  "(10::int) mod 6 \<noteq> 2
   \<and> get_layers 10 = Inl (ValueError ''resnet_size must be 6n + 2:'' 10)
   \<and> Cifar10Model_init 10 = Inl (ValueError ''resnet_size must be 6n + 2:'' 10)"
proof -
  have h: "(10::int) mod 6 \<noteq> 2" by simp
  show ?thesis using h stage_layout_rejects_other_sizes [OF h] by simp
qed

section \<open>Properties of the record decoder\<close>

lemma length_chunks: "length (chunks k n xs) = k"
  by (induction k arbitrary: xs) auto

lemma nth_chunks: "i < k \<Longrightarrow> chunks k n xs ! i = take n (drop (i * n) xs)"
proof (induction k arbitrary: xs i)
  case 0 then show ?case by simp
next
  case (Suc k)
  show ?case
  proof (cases i)
    case 0 then show ?thesis by simp
  next
    case (Suc j)
    with Suc.prems have "j < k" by simp
    from Suc.IH[OF this] Suc show ?thesis by (simp add: add.commute)
  qed
qed

lemma foldr_max_rect:
  "\<forall>r\<in>set m. length r = n \<Longrightarrow>
   foldr (\<lambda>xs. max (length xs)) m 0 = (if m = [] then 0 else n)"
  by (induction m) auto

lemma transpose_rect:
  assumes "m \<noteq> []" "\<forall>r\<in>set m. length r = n"
  shows "transpose m = map (\<lambda>j. map (\<lambda>r. r ! j) m) [0..<n]"
proof (rule nth_equalityI)
  show len: "length (transpose m) = length (map (\<lambda>j. map (\<lambda>r. r ! j) m) [0..<n])"
    using assms(1) foldr_max_rect[OF assms(2)] by (simp add: length_transpose)
  fix i assume "i < length (transpose m)"
  with len have i: "i < n" by simp
  have "filter (\<lambda>ys. i < length ys) m = m"
    using assms(2) i by (simp add: filter_id_conv)
  with \<open>i < length (transpose m)\<close> i
  show "transpose m ! i = map (\<lambda>j. map (\<lambda>r. r ! j) m) [0..<n] ! i"
    by (simp add: nth_transpose)
qed

lemma transpose_120_nth:
  assumes "t \<noteq> []" "\<forall>p\<in>set t. length p = h" "\<forall>p\<in>set t. \<forall>r\<in>set p. length r = w"
    and "i < h" "j < w" "k < length t"
  shows "length (transpose_120 t) = h"
    and "length (transpose_120 t ! i) = w"
    and "length (transpose_120 t ! i ! j) = length t"
    and "transpose_120 t ! i ! j ! k = t ! k ! i ! j"
proof -
  have T: "transpose t = map (\<lambda>i. map (\<lambda>p. p ! i) t) [0..<h]"
    using assms(1,2) by (rule transpose_rect)
  have rows: "\<forall>r\<in>set (map (\<lambda>p. p ! i) t). length r = w"
    using assms(2,3,4) by (auto simp: all_set_conv_all_nth)
  have ne: "map (\<lambda>p. p ! i) t \<noteq> []" using assms(1) by simp
  have I: "transpose_120 t ! i = map (\<lambda>j. map (\<lambda>r. r ! j) (map (\<lambda>p. p ! i) t)) [0..<w]"
    using assms(4) transpose_rect[OF ne rows] by (simp add: transpose_120_def T)
  show "length (transpose_120 t) = h" by (simp add: transpose_120_def T)
  show "length (transpose_120 t ! i) = w" by (simp add: I)
  show "length (transpose_120 t ! i ! j) = length t" using assms(5) by (simp add: I)
  show "transpose_120 t ! i ! j ! k = t ! k ! i ! j" using assms(5,6) by (simp add: I)
qed

lemma lin_bound: "h < d1 \<Longrightarrow> w < d2 \<Longrightarrow> h * d2 + w < d1 * (d2::nat)"
proof -
  assume a: "h < d1" "w < d2"
  then have "h * d2 + w < h * d2 + d2" by simp
  also have "\<dots> = Suc h * d2" by simp
  also have "\<dots> \<le> d1 * d2" using a(1) by (intro mult_le_mono1) simp
  finally show ?thesis .
qed

lemma chunks_rows_length:
  assumes "length v = d0 * d1 * d2"
  shows "\<forall>p\<in>set (map (chunks d1 d2) (chunks d0 (d1 * d2) v)). length p = d1"
  by (simp add: length_chunks)

lemma chunks_cells_length:
  assumes "length v = k * n" "i < k"
  shows "length (chunks k n v ! i) = n"
proof -
  have "Suc i * n \<le> k * n" using assms(2) by (intro mult_le_mono1) simp
  then show ?thesis using assms by (simp add: nth_chunks)
qed

lemma reshape_nth:
  assumes "length v = d0 * d1 * d2" "c < d0" "h < d1" "w < d2"
  shows "map (chunks d1 d2) (chunks d0 (d1 * d2) v) ! c ! h ! w = v ! (c * (d1 * d2) + h * d2 + w)"
    and "length (map (chunks d1 d2) (chunks d0 (d1 * d2) v) ! c ! h) = d2"
proof -
  let ?p = "take (d1 * d2) (drop (c * (d1 * d2)) v)"
  have b: "h * d2 + w < d1 * d2" using assms(3,4) by (rule lin_bound)
  have "Suc c * (d1 * d2) \<le> d0 * (d1 * d2)" using assms(2) by (intro mult_le_mono1) simp
  then have lp: "length ?p = d1 * d2" using assms(1) by (simp add: mult.assoc)
  have plane: "map (chunks d1 d2) (chunks d0 (d1 * d2) v) ! c = chunks d1 d2 ?p"
    using assms(2) by (simp add: length_chunks nth_chunks)
  have row: "chunks d1 d2 ?p ! h = take d2 (drop (h * d2) ?p)"
    using assms(3) by (rule nth_chunks)
  show "length (map (chunks d1 d2) (chunks d0 (d1 * d2) v) ! c ! h) = d2"
    unfolding plane using chunks_cells_length[OF lp assms(3)] .
  have "h * d2 \<le> d1 * d2" using assms(3) by (intro mult_le_mono1) simp
  then have hl: "h * d2 \<le> length ?p" unfolding lp .
  have "take d2 (drop (h * d2) ?p) ! w = drop (h * d2) ?p ! w"
    using assms(4) by simp
  also have "\<dots> = ?p ! (h * d2 + w)"
    using hl by (rule nth_drop)
  also have "\<dots> = drop (c * (d1 * d2)) v ! (h * d2 + w)"
    using b by (rule nth_take)
  also have "\<dots> = v ! (c * (d1 * d2) + (h * d2 + w))"
  proof (rule nth_drop)
    have "c * (d1 * d2) \<le> d0 * (d1 * d2)" using assms(2) by (intro mult_le_mono1) simp
    then show "c * (d1 * d2) \<le> length v" using assms(1) by (simp add: mult.assoc)
  qed
  finally show "map (chunks d1 d2) (chunks d0 (d1 * d2) v) ! c ! h ! w = v ! (c * (d1 * d2) + h * d2 + w)"
    unfolding plane row by (simp add: add.assoc)
qed

lemmas cifar_consts = HEIGHT_def WIDTH_def NUM_CHANNELS_def DEFAULT_IMAGE_SIZE_def NUM_CLASSES_def
  label_bytes_def record_bytes_def

lemma parse_record_short:
  assumes "length raw < 3073"
  shows "parse_record raw = Inl InvalidArgumentError"
  using assms
  by (cases raw) (simp_all add: parse_record_def decode_raw_def index0_def reshape3_def slice_def cifar_consts Let_def)

lemma parse_record_long:
  assumes "3073 \<le> length raw"
  shows "parse_record raw =
           Inr (map (map (map cast_float32))
                  (transpose_120 (map (chunks 32 32) (chunks 3 (32 * 32) (take 3072 (drop 1 raw))))),
                one_hot (uint (raw ! 0)) 10)"
  using assms
  by (cases raw) (simp_all add: parse_record_def decode_raw_def index0_def reshape3_def slice_def cifar_consts Let_def cast_int32_def)

lemma length_one_hot: "length (one_hot i depth) = depth"
  by (simp add: one_hot_def)

lemma nth_one_hot: "k < depth \<Longrightarrow> one_hot i depth ! k = (if int k = i then 1 else 0)"
  by (simp add: one_hot_def)

lemma depth_major_to_image:
  fixes v :: "'a list"
  assumes len: "length v = 3 * 32 * 32"
  defines "t \<equiv> map (chunks 32 32) (chunks 3 (32 * 32) v)"
  shows "length (transpose_120 t) = 32"
    and "i < 32 \<Longrightarrow> length (transpose_120 t ! i) = 32"
    and "i < 32 \<Longrightarrow> j < 32 \<Longrightarrow> length (transpose_120 t ! i ! j) = 3"
    and "i < 32 \<Longrightarrow> j < 32 \<Longrightarrow> k < 3 \<Longrightarrow>
         transpose_120 t ! i ! j ! k = v ! (k * (32 * 32) + i * 32 + j)"
proof -
  have lt: "length t = 3" by (simp add: t_def length_chunks)
  then have ne: "t \<noteq> []" by auto
  have k0: "0 < length t" using lt by simp
  have planes: "\<forall>p\<in>set t. length p = 32"
    unfolding t_def using len by (rule chunks_rows_length)
  have zero: "(0::nat) < 32" by simp
  have cells: "\<forall>p\<in>set t. \<forall>r\<in>set p. length r = 32"
  proof (intro ballI)
    fix p r assume "p \<in> set t" "r \<in> set p"
    then obtain c where c: "c < 3" "p = t ! c"
      using lt by (auto simp: in_set_conv_nth)
    from \<open>r \<in> set p\<close> planes \<open>p \<in> set t\<close> obtain h where h: "h < 32" "r = p ! h"
      by (auto simp: in_set_conv_nth)
    show "length r = 32"
      unfolding h c t_def using reshape_nth(2)[OF len c(1) h(1) zero] .
  qed
  show "length (transpose_120 t) = 32"
    using transpose_120_nth(1)[OF ne planes cells zero zero k0] .
  show "length (transpose_120 t ! i) = 32" if "i < 32"
    using transpose_120_nth(2)[OF ne planes cells that zero k0] .
  show "length (transpose_120 t ! i ! j) = 3" if "i < 32" "j < 32"
    using transpose_120_nth(3)[OF ne planes cells that k0] lt by simp
  show "transpose_120 t ! i ! j ! k = v ! (k * (32 * 32) + i * 32 + j)"
    if "i < 32" "j < 32" "k < 3"
  proof -
    have "transpose_120 t ! i ! j ! k = t ! k ! i ! j"
      using that(3) lt by (intro transpose_120_nth(4)[OF ne planes cells that(1,2)]) simp
    also have "\<dots> = v ! (k * (32 * 32) + i * 32 + j)"
      unfolding t_def using that by (intro reshape_nth(1)[OF len]) 
    finally show ?thesis .
  qed
qed

lemma uint_eq_int_iff: "(int k = uint (b::byte)) = (k = unat b)"
  by (simp only: uint_nat of_nat_eq_iff)

lemma parse_record_prefix:
  assumes "3073 \<le> length raw"
  shows "parse_record raw = parse_record (take 3073 raw)"
proof -
  have l: "3073 \<le> length (take 3073 raw)" using assms by simp
  have d: "take 3072 (drop 1 (take 3073 raw)) = take 3072 (drop 1 raw)"
    by (simp add: drop_take)
  have h: "take 3073 raw ! 0 = raw ! 0" by simp
  show ?thesis
    unfolding parse_record_long[OF assms] parse_record_long[OF l] d h ..
qed

lemma one_hot_update:
  assumes "b < depth"
  shows "one_hot (int b) depth = (replicate depth 0)[b := 1]"
proof (rule nth_equalityI)
  show "length (one_hot (int b) depth) = length ((replicate depth (0::real))[b := 1])"
    by (simp add: length_one_hot)
  fix i assume "i < length (one_hot (int b) depth)"
  then have i: "i < depth" by (simp add: length_one_hot)
  then show "one_hot (int b) depth ! i = (replicate depth 0)[b := 1] ! i"
    using assms by (simp add: nth_one_hot nth_list_update)
qed

lemma parse_record_content:
  assumes "3073 \<le> length raw"
  shows "\<exists>image label. parse_record raw = Inr (image, label)
     \<and> label = one_hot (uint (raw ! 0)) 10
     \<and> length image = 32
     \<and> (\<forall>row<32. length (image ! row) = 32
          \<and> (\<forall>col<32. length (image ! row ! col) = 3
               \<and> (\<forall>ch<3. image ! row ! col ! ch
                            = real (unat (raw ! (1 + ch * 32 * 32 + row * 32 + col))))))"
proof -
  let ?v = "take 3072 (drop 1 raw)"
  let ?t = "map (chunks 32 32) (chunks 3 (32 * 32) ?v)"
  let ?image = "map (map (map cast_float32)) (transpose_120 ?t)"
  let ?label = "one_hot (uint (raw ! 0)) 10"
  have len: "length ?v = 3 * 32 * 32" using assms by simp
  have run: "parse_record raw = Inr (?image, ?label)"
    using assms by (rule parse_record_long)
  have pix: "?image ! row ! col ! ch = real (unat (raw ! (1 + ch * 32 * 32 + row * 32 + col)))"
    if "row < 32" "col < 32" "ch < 3" for row col ch
  proof -
    have b: "ch * (32 * 32) + row * 32 + col < 3072" using that by simp
    have A: "?image ! row ! col ! ch = cast_float32 (transpose_120 ?t ! row ! col ! ch)"
      using that depth_major_to_image(1-3)[OF len] by simp
    have B: "transpose_120 ?t ! row ! col ! ch = ?v ! (ch * (32 * 32) + row * 32 + col)"
      using that by (rule depth_major_to_image(4)[OF len])
    have C: "?v ! (ch * (32 * 32) + row * 32 + col) = raw ! (1 + ch * 32 * 32 + row * 32 + col)"
      using b assms by (simp add: add.assoc mult.assoc)
    show ?thesis unfolding A B C cast_float32_def ..
  qed
  have dims: "length ?image = 32"
    "\<And>row. row < 32 \<Longrightarrow> length (?image ! row) = 32"
    "\<And>row col. row < 32 \<Longrightarrow> col < 32 \<Longrightarrow> length (?image ! row ! col) = 3"
    using depth_major_to_image(1-3)[OF len] by simp_all
  show ?thesis
    using run pix dims by simp
qed

text \<open>
  Claim C1, as stated, fails. The record of 3073 bytes whose label byte is 77 is decoded
  to the label of ten zeros, which has no 1 and so is not a one-hot vector; the record
  whose label byte is 78 is decoded to the same label, so that the label byte is not
  recovered from it.
\<close>

theorem parse_record_label_not_one_hot:
  "length (77 # replicate 3072 (0::byte)) = 3073
   \<and> \<not> isl (parse_record (77 # replicate 3072 0))
   \<and> snd (projr (parse_record (77 # replicate 3072 0))) = [0, 0, 0, 0, 0, 0, 0, 0, 0, 0]
   \<and> snd (projr (parse_record (78 # replicate 3072 0))) = [0, 0, 0, 0, 0, 0, 0, 0, 0, 0]"
proof -
  have u: "[0..<10] = [0, 1, 2, 3, 4, 5, 6, 7, 8, 9::nat]" by (simp add: upt_rec)
  have a: "parse_record (77 # replicate 3072 0)
             = Inr (fst (projr (parse_record (77 # replicate 3072 0))), [0, 0, 0, 0, 0, 0, 0, 0, 0, 0])"
    by (subst (1 2) parse_record_long) (simp_all add: one_hot_def u)
  have b: "parse_record (78 # replicate 3072 0)
             = Inr (fst (projr (parse_record (78 # replicate 3072 0))), [0, 0, 0, 0, 0, 0, 0, 0, 0, 0])"
    by (subst (1 2) parse_record_long) (simp_all add: one_hot_def u)
  have a1: "\<not> isl (parse_record (77 # replicate 3072 0))" by (subst a) simp
  have a2: "snd (projr (parse_record (77 # replicate 3072 0))) = [0, 0, 0, 0, 0, 0, 0, 0, 0, 0]"
    by (subst a) simp
  have b2: "snd (projr (parse_record (78 # replicate 3072 0))) = [0, 0, 0, 0, 0, 0, 0, 0, 0, 0]"
    by (subst b) simp
  show ?thesis using a1 a2 b2 by simp
qed

text \<open>
  Claim C1, amended. Every raw record of exactly 3073 bytes is decoded without error, to
  a label of length 10 and an image of 32 rows of 32 pixels of 3 channels whose value at
  row, column, channel is the byte at offset \<open>1 + channel * 32 * 32 + row * 32 + column\<close>
  of the record, as a number, unscaled. When byte 0 is less than 10, the label is the
  one-hot vector indexed by byte 0: ten zeros with a 1 written at that index, so that a
  position holds 1 exactly when it is byte 0, and 0 otherwise.
\<close>

theorem parse_record_decodes:
  assumes "length raw = 3073"
  shows "\<exists>image label. parse_record raw = Inr (image, label)
     \<and> length label = 10
     \<and> (unat (raw ! 0) < 10 \<longrightarrow>
          label = (replicate 10 0)[unat (raw ! 0) := 1]
          \<and> (\<forall>i<10. (label ! i = 1) = (i = unat (raw ! 0)))
          \<and> (\<forall>i<10. i \<noteq> unat (raw ! 0) \<longrightarrow> label ! i = 0))
     \<and> length image = 32
     \<and> (\<forall>row<32. length (image ! row) = 32
          \<and> (\<forall>col<32. length (image ! row ! col) = 3
               \<and> (\<forall>ch<3. image ! row ! col ! ch
                            = real (unat (raw ! (1 + ch * 32 * 32 + row * 32 + col))))))"
proof -
  have long: "3073 \<le> length raw" using assms by simp
  from parse_record_content[OF long] obtain image label where
    run: "parse_record raw = Inr (image, label)"
    and lab: "label = one_hot (uint (raw ! 0)) 10"
    and len: "length image = 32"
    and pix: "\<forall>row<32. length (image ! row) = 32
          \<and> (\<forall>col<32. length (image ! row ! col) = 3
               \<and> (\<forall>ch<3. image ! row ! col ! ch
                            = real (unat (raw ! (1 + ch * 32 * 32 + row * 32 + col)))))"
    by blast
  have l10: "length label = 10" unfolding lab by (rule length_one_hot)
  have nth: "\<forall>i<10. label ! i = (if i = unat (raw ! 0) then 1 else 0)"
    unfolding lab by (simp add: nth_one_hot uint_eq_int_iff)
  have upd: "label = (replicate 10 0)[unat (raw ! 0) := 1]" if "unat (raw ! 0) < 10"
    unfolding lab uint_nat using that by (rule one_hot_update)
  have one: "\<forall>i<10. (label ! i = 1) = (i = unat (raw ! 0))" using nth by simp
  have zero: "\<forall>i<10. i \<noteq> unat (raw ! 0) \<longrightarrow> label ! i = 0" using nth by simp
  show ?thesis
    using run l10 upd one zero len pix by blast
qed

theorem parse_record_decodes_witness:
  "length (3 # map of_nat [1..<3073] :: byte list) = 3073
   \<and> unat ((3 # map of_nat [1..<3073] :: byte list) ! 0) < 10
   \<and> (\<exists>image label. parse_record (3 # map of_nat [1..<3073]) = Inr (image, label)
        \<and> label = [0, 0, 0, 1, 0, 0, 0, 0, 0, 0]
        \<and> image ! 1 ! 2 ! 1 = 35)"
proof -
  let ?raw = "3 # map of_nat [1..<3073] :: byte list"
  have h: "length ?raw = 3073" by simp
  have b: "unat (?raw ! 0) < 10" by simp
  from parse_record_decodes [OF h] obtain image label where
    run: "parse_record ?raw = Inr (image, label)"
    and lab: "unat (?raw ! 0) < 10 \<longrightarrow> label = (replicate 10 0)[unat (?raw ! 0) := 1]"
    and pix: "\<forall>row<32. length (image ! row) = 32
          \<and> (\<forall>col<32. length (image ! row ! col) = 3
               \<and> (\<forall>ch<3. image ! row ! col ! ch
                            = real (unat (?raw ! (1 + ch * 32 * 32 + row * 32 + col)))))"
    by blast
  have "(replicate 10 (0::real))[3 := 1] = [0, 0, 0, 1, 0, 0, 0, 0, 0, 0]"
    by (simp add: numeral_eq_Suc)
  then have l: "label = [0, 0, 0, 1, 0, 0, 0, 0, 0, 0]" using lab by simp
  have "image ! 1 ! 2 ! 1 = real (unat (?raw ! (1 + 1 * 32 * 32 + 1 * 32 + 2)))"
    using pix by simp
  also have "\<dots> = 35" by (simp add: unat_of_nat)
  finally show ?thesis using h b run l by simp
qed

text \<open>
  Claim C9. A record of 3073 bytes whose label byte is 10 or more is decoded without
  error, and its label is the vector of ten zeros.
\<close>

theorem parse_record_label_out_of_range:
  assumes "length raw = 3073" and "10 \<le> unat (raw ! 0)"
  shows "\<exists>image. parse_record raw = Inr (image, replicate 10 0)"
proof -
  have "one_hot (uint (raw ! 0)) 10 = replicate 10 0"
  proof (rule nth_equalityI)
    show "length (one_hot (uint (raw ! 0)) 10) = length (replicate 10 (0::real))"
      by (simp add: length_one_hot)
    fix i assume "i < length (one_hot (uint (raw ! 0)) 10)"
    then have i: "i < 10" by (simp add: length_one_hot)
    then show "one_hot (uint (raw ! 0)) 10 ! i = replicate 10 0 ! i"
      using assms(2) by (simp add: nth_one_hot uint_eq_int_iff)
  qed
  moreover have "3073 \<le> length raw" using assms(1) by simp
  ultimately show ?thesis using parse_record_long by fastforce
qed

theorem parse_record_label_out_of_range_witness:
  "length (255 # replicate 3072 (0::byte)) = 3073
   \<and> 10 \<le> unat ((255 # replicate 3072 (0::byte)) ! 0)
   \<and> (\<exists>image. parse_record (255 # replicate 3072 0) = Inr (image, replicate 10 0))"
proof -
  have h1: "length (255 # replicate 3072 (0::byte)) = 3073" by simp
  have h2: "10 \<le> unat ((255 # replicate 3072 (0::byte)) ! 0)" by simp
  show ?thesis using h1 h2 parse_record_label_out_of_range [OF h1 h2] by blast
qed

text \<open>
  Claim C3, as stated, fails: a buffer of 3074 bytes is decoded, and so is a record of
  3073 bytes whose label byte is 200.
\<close>

theorem parse_record_accepts_long_and_bad_label:
  "length (replicate 3074 (0::byte)) \<noteq> 3073
   \<and> \<not> isl (parse_record (replicate 3074 0))
   \<and> length (200 # replicate 3072 (0::byte)) = 3073
   \<and> 10 \<le> unat (200::byte)
   \<and> \<not> isl (parse_record (200 # replicate 3072 0))"
proof -
  have a: "\<not> isl (parse_record (replicate 3074 0))"
    by (subst parse_record_long) simp_all
  have b: "\<not> isl (parse_record (200 # replicate 3072 0))"
    by (subst parse_record_long) simp_all
  show ?thesis using a b by simp
qed

text \<open>
  Claim C3, amended. \<open>parse_record\<close> fails, without a decoded sample, whenever the buffer
  is shorter than 3073 bytes; the error is the framework's \<open>InvalidArgumentError\<close>, which
  is what the code has for the specification's \<open>FormatError\<close>. A buffer of 3073 bytes or
  more is decoded without error, whatever its label byte, and exactly as its first 3073
  bytes are: the label holds 1 at the position that is byte 0, if there is one, and the
  value of the image at row, column, channel is the byte at offset
  \<open>1 + channel * 32 * 32 + row * 32 + column\<close>.
\<close>

theorem parse_record_fails_iff_short:
  "(length raw < 3073 \<longrightarrow>
      parse_record raw = Inl InvalidArgumentError \<and> (\<forall>s. parse_record raw \<noteq> Inr s))
   \<and> (3073 \<le> length raw \<longrightarrow>
        parse_record raw = parse_record (take 3073 raw)
        \<and> (\<exists>image label. parse_record raw = Inr (image, label)
             \<and> length label = 10
             \<and> (\<forall>i<10. label ! i = (if i = unat (raw ! 0) then 1 else 0))
             \<and> length image = 32
             \<and> (\<forall>row<32. length (image ! row) = 32
                  \<and> (\<forall>col<32. length (image ! row ! col) = 3
                       \<and> (\<forall>ch<3. image ! row ! col ! ch
                            = real (unat (raw ! (1 + ch * 32 * 32 + row * 32 + col))))))))"
proof
  show "length raw < 3073 \<longrightarrow>
      parse_record raw = Inl InvalidArgumentError \<and> (\<forall>s. parse_record raw \<noteq> Inr s)"
    by (simp add: parse_record_short)
  show "3073 \<le> length raw \<longrightarrow>
        parse_record raw = parse_record (take 3073 raw)
        \<and> (\<exists>image label. parse_record raw = Inr (image, label)
             \<and> length label = 10
             \<and> (\<forall>i<10. label ! i = (if i = unat (raw ! 0) then 1 else 0))
             \<and> length image = 32
             \<and> (\<forall>row<32. length (image ! row) = 32
                  \<and> (\<forall>col<32. length (image ! row ! col) = 3
                       \<and> (\<forall>ch<3. image ! row ! col ! ch
                            = real (unat (raw ! (1 + ch * 32 * 32 + row * 32 + col)))))))"
  proof
    assume long: "3073 \<le> length raw"
    from parse_record_content[OF long] obtain image label where
      run: "parse_record raw = Inr (image, label)"
      and lab: "label = one_hot (uint (raw ! 0)) 10"
      and len: "length image = 32"
      and pix: "\<forall>row<32. length (image ! row) = 32
          \<and> (\<forall>col<32. length (image ! row ! col) = 3
               \<and> (\<forall>ch<3. image ! row ! col ! ch
                            = real (unat (raw ! (1 + ch * 32 * 32 + row * 32 + col)))))"
      by blast
    have l10: "length label = 10" unfolding lab by (rule length_one_hot)
    have nth: "\<forall>i<10. label ! i = (if i = unat (raw ! 0) then 1 else 0)"
      unfolding lab by (simp add: nth_one_hot uint_eq_int_iff)
    have ex: "\<exists>image label. parse_record raw = Inr (image, label)
             \<and> length label = 10
             \<and> (\<forall>i<10. label ! i = (if i = unat (raw ! 0) then 1 else 0))
             \<and> length image = 32
             \<and> (\<forall>row<32. length (image ! row) = 32
                  \<and> (\<forall>col<32. length (image ! row ! col) = 3
                       \<and> (\<forall>ch<3. image ! row ! col ! ch
                            = real (unat (raw ! (1 + ch * 32 * 32 + row * 32 + col))))))"
      using run l10 nth len pix by blast
    show "parse_record raw = parse_record (take 3073 raw)
        \<and> (\<exists>image label. parse_record raw = Inr (image, label)
             \<and> length label = 10
             \<and> (\<forall>i<10. label ! i = (if i = unat (raw ! 0) then 1 else 0))
             \<and> length image = 32
             \<and> (\<forall>row<32. length (image ! row) = 32
                  \<and> (\<forall>col<32. length (image ! row ! col) = 3
                       \<and> (\<forall>ch<3. image ! row ! col ! ch
                            = real (unat (raw ! (1 + ch * 32 * 32 + row * 32 + col)))))))"
      using parse_record_prefix[OF long] ex by (rule conjI)
  qed
qed

theorem parse_record_fails_iff_short_witness:
  "length (replicate 3072 (0::byte)) < 3073
   \<and> parse_record (replicate 3072 0) = Inl InvalidArgumentError
   \<and> 3073 \<le> length (replicate 3075 (1::byte))
   \<and> parse_record (replicate 3075 1) = parse_record (replicate 3073 1)
   \<and> (\<exists>image label. parse_record (replicate 3075 1) = Inr (image, label)
        \<and> label ! 1 = 1 \<and> label ! 2 = 0 \<and> image ! 0 ! 0 ! 0 = 1)"
proof -
  let ?s = "replicate 3072 (0::byte)"
  let ?l = "replicate 3075 (1::byte)"
  have s: "length ?s < 3073" by simp
  have l: "3073 \<le> length ?l" by simp
  have short: "parse_record ?s = Inl InvalidArgumentError"
    using parse_record_fails_iff_short [of ?s] s by blast
  have pre: "parse_record ?l = parse_record (take 3073 ?l)"
    using parse_record_fails_iff_short [of ?l] l by blast
  have pre': "parse_record ?l = parse_record (replicate 3073 1)"
    using pre by simp
  from parse_record_fails_iff_short [of ?l] l obtain image label where
    run: "parse_record ?l = Inr (image, label)"
    and lab: "\<forall>i<10. label ! i = (if i = unat (?l ! 0) then 1 else 0)"
    and pix: "\<forall>row<32. length (image ! row) = 32
          \<and> (\<forall>col<32. length (image ! row ! col) = 3
               \<and> (\<forall>ch<3. image ! row ! col ! ch
                            = real (unat (?l ! (1 + ch * 32 * 32 + row * 32 + col)))))"
    by blast
  have l1: "label ! 1 = 1" using lab by simp
  have l2: "label ! 2 = 0" using lab by simp
  have p: "image ! 0 ! 0 ! 0 = 1" using pix by simp
  have ex: "\<exists>image label. parse_record ?l = Inr (image, label)
        \<and> label ! 1 = 1 \<and> label ! 2 = 0 \<and> image ! 0 ! 0 ! 0 = 1"
    using run l1 l2 p by blast
  show ?thesis using s l short pre' ex by blast
qed

section \<open>Properties of the learning rate schedule\<close>

text \<open>
  Claim C4. With a batch size of 128, the schedule of \<^verbatim>\<open>cifar10_model_fn\<close> has the base
  rate 0.1, the boundaries 39000, 58500 and 78000 (390 steps for each epoch), the rates
  0.1, 0.01, 0.001 and 0.0001, and \<open>lookup\<close> returns the rate whose index is the number
  of boundaries that are at most the global step: 0.1 at step 0, 0.01 at step 39000 and
  0.0001 at step 100000. The schedule is the one of the specification, over the real
  numbers.
\<close>

theorem cifar10_learning_rate_schedule:
  "\<exists>s. cifar10_learning_rate_fn 128 = Inr s
      \<and> base_rate s = 1 / 10
      \<and> boundaries s = [39000, 58500, 78000]
      \<and> rates s = [1 / 10, 1 / 100, 1 / 1000, 1 / 10000]
      \<and> (\<forall>step. lookup s step = rates s ! length (filter (\<lambda>b. b \<le> step) (boundaries s)))
      \<and> lookup s 0 = 1 / 10
      \<and> lookup s 39000 = 1 / 100
      \<and> lookup s 100000 = 1 / 10000"
  by (simp add: cifar10_learning_rate_fn_def learning_rate_with_decay_def lookup_def
      NUM_IMAGES_train_def Let_def)

section \<open>Properties of the file names\<close>






section \<open>Properties of the preprocessing\<close>




section \<open>Properties of the input pipeline\<close>

lemma concat_chunks: "k * n \<le> length xs \<Longrightarrow> concat (chunks k n xs) = take (k * n) xs"
proof (induction k arbitrary: xs)
  case 0 then show ?case by simp
next
  case (Suc k)
  have "k * n \<le> length (drop n xs)" using Suc.prems by simp
  from Suc.IH[OF this] show ?case
    by (simp add: take_add add.commute)
qed

lemma chunks_all_length:
  assumes "k * n \<le> length xs"
  shows "\<forall>r\<in>set (chunks k n xs). length r = n"
proof
  fix r assume "r \<in> set (chunks k n xs)"
  then obtain i where i: "i < k" "r = chunks k n xs ! i"
    by (auto simp: in_set_conv_nth length_chunks)
  have "Suc i * n \<le> k * n" using i(1) by (intro mult_le_mono1) simp
  then have "i * n + n \<le> length xs" using assms by simp
  then show "length r = n" using i by (simp add: nth_chunks)
qed

lemma div_mult_le_length: "length xs div n * n \<le> length (xs :: 'a list)"
  by simp

lemma length_nth_chunks:
  assumes "k * n \<le> length xs" "i < k"
  shows "length (chunks k n xs ! i) = n"
proof -
  have "chunks k n xs ! i \<in> set (chunks k n xs)"
    using assms(2) by (intro nth_mem) (simp only: length_chunks)
  then show ?thesis using chunks_all_length[OF assms(1)] by blast
qed

lemma concat_chunks_rest:
  assumes "k * n \<le> length xs"
  shows "concat (chunks k n xs @ [drop (k * n) xs]) = xs"
proof -
  have "concat (chunks k n xs @ [drop (k * n) xs]) = concat (chunks k n xs) @ drop (k * n) xs"
    by simp
  also have "\<dots> = take (k * n) xs @ drop (k * n) xs"
    by (simp only: concat_chunks[OF assms])
  also have "\<dots> = xs" by (rule append_take_drop_id)
  finally show ?thesis .
qed

lemma read_records_lengths:
  "\<forall>r\<in>set (fst (read_records fs n f)). length r = n"
proof (cases "fs f")
  case None
  then have "read_records fs n f = ([], Some NotFoundError)"
    by (simp add: read_records_def)
  then show ?thesis by simp
next
  case (Some nd)
  show ?thesis
  proof (cases nd)
    case Directory
    with Some have "read_records fs n f = ([], Some InvalidArgumentError)"
      by (simp add: read_records_def)
    then show ?thesis by simp
  next
    case (File bs)
    show ?thesis
    proof (cases "length bs mod n = 0")
      case True
      have le: "length bs div n * n \<le> length bs" by (rule div_mult_le_length)
      have eq: "fst (read_records fs n f) = chunks (length bs div n) n bs"
        by (simp add: read_records_def Some File True)
      show ?thesis unfolding eq using le by (rule chunks_all_length)
    next
      case False
      have "read_records fs n f = ([], Some InvalidArgumentError)"
        by (simp add: read_records_def Some File False)
      then show ?thesis by simp
    qed
  qed
qed

lemma FixedLengthRecordDataset_lengths:
  "\<forall>r\<in>set (fst (FixedLengthRecordDataset fs fns n)). length r = n"
proof (induction fns)
  case Nil
  have "fst (FixedLengthRecordDataset fs [] n) = []" by simp
  then show ?case by simp
next
  case (Cons f fns)
  obtain rs e where rr: "read_records fs n f = (rs, e)" by (cases "read_records fs n f")
  obtain rs' e' where rest: "FixedLengthRecordDataset fs fns n = (rs', e')"
    by (cases "FixedLengthRecordDataset fs fns n")
  have a: "\<forall>r\<in>set rs. length r = n"
    using read_records_lengths[of fs n f] unfolding rr fst_conv .
  have b: "\<forall>r\<in>set rs'. length r = n"
    using Cons.IH unfolding rest fst_conv .
  show ?case
  proof (cases e)
    case None
    have eq: "fst (FixedLengthRecordDataset fs (f # fns) n) = rs @ rs'"
      by (simp add: rr rest None)
    show ?thesis unfolding eq
    proof
      fix r assume "r \<in> set (rs @ rs')"
      then have "r \<in> set rs \<or> r \<in> set rs'" by simp
      then show "length r = n" using a b by blast
    qed
  next
    case (Some err)
    have eq: "fst (FixedLengthRecordDataset fs (f # fns) n) = rs"
      by (simp add: rr Some)
    show ?thesis unfolding eq by (rule a)
  qed
qed

lemma shuffle_from_error:
  assumes "length (buf @ take (B - length buf) inp) < B \<and> e \<noteq> None"
  shows "shuffle_from B r k buf inp e = ([], e)"
  by (subst shuffle_from.simps) (simp only: if_P[OF assms])

lemma shuffle_from_end:
  assumes "\<not> (length (buf @ take (B - length buf) inp) < B \<and> e \<noteq> None)"
    and "buf @ take (B - length buf) inp = []"
  shows "shuffle_from B r k buf inp e = ([], None)"
  by (subst shuffle_from.simps) (simp only: if_not_P[OF assms(1)] if_P[OF assms(2)])

lemma shuffle_from_step:
  assumes "\<not> (length (buf @ take (B - length buf) inp) < B \<and> e \<noteq> None)"
    and "buf @ take (B - length buf) inp \<noteq> []"
    and "shuffle_from B r (Suc k)
           (take (r k mod length (buf @ take (B - length buf) inp))
              (buf @ take (B - length buf) inp)
            @ drop (Suc (r k mod length (buf @ take (B - length buf) inp)))
                (buf @ take (B - length buf) inp))
           (drop (B - length buf) inp) e = (out, e')"
  shows "shuffle_from B r k buf inp e
         = ((buf @ take (B - length buf) inp)
              ! (r k mod length (buf @ take (B - length buf) inp)) # out, e')"
  by (subst shuffle_from.simps)
    (simp only: if_not_P[OF assms(1)] if_not_P[OF assms(2)] assms(3) prod.case)

lemma set_append_least: "set xs \<subseteq> S \<Longrightarrow> set ys \<subseteq> S \<Longrightarrow> set (xs @ ys) \<subseteq> S"
  by simp

lemma set_append_right: "set ys \<subseteq> T \<Longrightarrow> set (xs @ ys) \<subseteq> set xs \<union> T"
  by auto

lemma shuffle_from_subset:
  "set (fst (shuffle_from B r k buf inp e)) \<subseteq> set buf \<union> set inp"
proof (induction B r k buf inp e rule: shuffle_from.induct)
  case (1 B r k buf inp e)
  let ?buf = "buf @ take (B - length buf) inp"
  let ?j = "r k mod length ?buf"
  show ?case
  proof (cases "length ?buf < B \<and> e \<noteq> None")
    case True
    show ?thesis unfolding shuffle_from_error[OF True] by simp
  next
    case stop: False
    show ?thesis
    proof (cases "?buf = []")
      case True
      show ?thesis unfolding shuffle_from_end[OF stop True] by simp
    next
      case False
      obtain out e' where rec: "shuffle_from B r (Suc k) (take ?j ?buf @ drop (Suc ?j) ?buf)
                                  (drop (B - length buf) inp) e = (out, e')"
        by (cases "shuffle_from B r (Suc k) (take ?j ?buf @ drop (Suc ?j) ?buf)
                                  (drop (B - length buf) inp) e")
      have "set (fst (shuffle_from B r (Suc k) (take ?j ?buf @ drop (Suc ?j) ?buf)
                                  (drop (B - length buf) inp) e))
              \<subseteq> set (take ?j ?buf @ drop (Suc ?j) ?buf) \<union> set (drop (B - length buf) inp)"
        using stop False by (rule "1.IH")
      then have ih: "set out \<subseteq> set (take ?j ?buf @ drop (Suc ?j) ?buf)
                            \<union> set (drop (B - length buf) inp)"
        unfolding rec fst_conv .
      have t1: "set (take ?j ?buf) \<subseteq> set ?buf" by (rule set_take_subset)
      have t2: "set (drop (Suc ?j) ?buf) \<subseteq> set ?buf" by (rule set_drop_subset)
      have s1: "set (take ?j ?buf @ drop (Suc ?j) ?buf) \<subseteq> set ?buf"
        using t1 t2 by (rule set_append_least)
      have t3: "set (take (B - length buf) inp) \<subseteq> set inp" by (rule set_take_subset)
      have s2: "set ?buf \<subseteq> set buf \<union> set inp"
        using t3 by (rule set_append_right)
      have s3: "set (drop (B - length buf) inp) \<subseteq> set inp" by (rule set_drop_subset)
      from False have "0 < length ?buf" by (rule length_greater_0_conv[THEN iffD2])
      then have "?j < length ?buf" by (rule mod_less_divisor)
      then have s4: "?buf ! ?j \<in> set ?buf" by (rule nth_mem)
      have "set (?buf ! ?j # out) \<subseteq> set buf \<union> set inp"
        unfolding list.set using ih s1 s2 s3 s4 by blast
      then show ?thesis unfolding shuffle_from_step[OF stop False rec] fst_conv .
    qed
  qed
qed

lemma ds_shuffle_subset: "set (fst (ds_shuffle B r ds)) \<subseteq> set (fst ds)"
proof (cases "B = 0")
  case True
  have "ds_shuffle B r ds = ([], Some InvalidArgumentError)"
    unfolding ds_shuffle_def using True by (rule if_P)
  then show ?thesis by simp
next
  case False
  have eq: "ds_shuffle B r ds = shuffle_from B r 0 [] (fst ds) (snd ds)"
    unfolding ds_shuffle_def using False by (rule if_not_P)
  have "set (fst (shuffle_from B r 0 [] (fst ds) (snd ds))) \<subseteq> set [] \<union> set (fst ds)"
    by (rule shuffle_from_subset)
  then show ?thesis unfolding eq by simp
qed

lemma dataset_record_bytes_eq: "dataset_record_bytes = 3073"
  by (simp add: dataset_record_bytes_def DEFAULT_IMAGE_SIZE_def HEIGHT_def WIDTH_def NUM_CHANNELS_def)

lemma record_bytes_eq: "record_bytes = 3073"
  by (simp add: record_bytes_def label_bytes_def DEFAULT_IMAGE_SIZE_def HEIGHT_def WIDTH_def NUM_CHANNELS_def)

lemma record_dataset_lengths:
  "\<forall>r\<in>set (fst (record_dataset fs filenames)). length r = 3073"
  unfolding record_dataset_def dataset_record_bytes_eq
  by (rule FixedLengthRecordDataset_lengths)

lemma ds_map_from_total:
  assumes "\<And>i x. x \<in> set xs \<Longrightarrow> \<exists>y. f i x = Inr y"
  shows "\<exists>ys. ds_map_from f i xs e = (ys, e) \<and> length ys = length xs"
  using assms
proof (induction xs arbitrary: i)
  case Nil
  show ?case by simp
next
  case (Cons x xs)
  have "x \<in> set (x # xs)" by simp
  then obtain y where y: "f i x = Inr y" using Cons.prems by blast
  have "\<And>j z. z \<in> set xs \<Longrightarrow> \<exists>y. f j z = Inr y"
  proof -
    fix j z assume "z \<in> set xs"
    then have "z \<in> set (x # xs)" by simp
    then show "\<exists>y. f j z = Inr y" by (rule Cons.prems)
  qed
  from Cons.IH[OF this, of "Suc i"] obtain ys where
    ys: "ds_map_from f (Suc i) xs e = (ys, e)" "length ys = length xs" by blast
  have "ds_map_from f i (x # xs) e = (y # ys, e)" by (simp add: y ys(1))
  then show ?case using ys(2) by simp
qed

lemma ds_repeat_once:
  assumes "epoch 0 = (xs, None)"
  shows "ds_repeat 1 epoch = (xs, None)"
  by (simp add: ds_repeat_def assms)

lemma parse_record_total:
  assumes "length r = 3073"
  shows "\<exists>s. parse_record r = Inr s"
proof -
  have "3073 \<le> length r" using assms by simp
  from parse_record_long[OF this] show ?thesis by blast
qed

lemma preprocess_eval_total:
  "\<exists>y. (case s of (im, lb) \<Rightarrow>
          (case preprocess_image d im False of
             Inl e \<Rightarrow> Inl e
           | Inr im' \<Rightarrow> Inr (im', lb))) = (Inr y :: error + sample)"
  by (cases s) (simp add: preprocess_image_def)

lemma input_fn_epoch_eval:
  assumes "record_dataset fs filenames = (rs, None)"
  shows "\<exists>xs. input_fn_epoch fs g False filenames epoch = (xs, None) \<and> length xs = length rs"
proof -
  have all: "\<forall>r\<in>set (fst (record_dataset fs filenames)). length r = 3073"
    by (rule record_dataset_lengths)
  have p: "\<And>i r. r \<in> set rs \<Longrightarrow> \<exists>y. (\<lambda>i. parse_record) i r = Inr y"
  proof -
    fix i :: nat and r assume "r \<in> set rs"
    then have "r \<in> set (fst (record_dataset fs filenames))" unfolding assms fst_conv .
    then have "length r = 3073" using all by blast
    then show "\<exists>y. (\<lambda>i. parse_record) i r = Inr y" by (rule parse_record_total)
  qed
  from ds_map_from_total[of rs "\<lambda>i. parse_record" 0 None, OF p] obtain ps where
    ps: "ds_map_from (\<lambda>i. parse_record) 0 rs None = (ps, None)" "length ps = length rs"
    by blast
  let ?pre = "\<lambda>i (image, label).
                       case preprocess_image (image_draws g epoch i) image False of
                         Inl e \<Rightarrow> Inl e
                       | Inr image' \<Rightarrow> (Inr (image', label) :: error + sample)"
  have q: "\<And>i s. s \<in> set ps \<Longrightarrow> \<exists>y. ?pre i s = Inr y"
    by (rule preprocess_eval_total)
  from ds_map_from_total[of ps ?pre 0 None, OF q] obtain xs where
    xs: "ds_map_from ?pre 0 ps None = (xs, None)" "length xs = length ps"
    by blast
  have "input_fn_epoch fs g False filenames epoch = (xs, None)"
    by (simp add: input_fn_epoch_def Let_def assms ds_map_def ps(1) xs(1))
  then show ?thesis using xs(2) ps(2) by simp
qed

text \<open>
  Claim C7. When the file names are resolved, the iteration over all epochs ends without
  an error and the number of its samples is not a multiple of the batch size, the
  dataset of \<open>input_fn\<close> ends without an error too; its batches, in order, hold the
  samples in order; every batch but the last has the batch size; and the last batch is
  kept: it holds the samples that remain, fewer than the batch size and at least one.
\<close>

theorem input_fn_keeps_final_partial_batch:
  assumes files: "get_filenames fs is_training data_dir = Inr filenames"
    and run: "ds_repeat num_epochs (input_fn_epoch fs g is_training filenames) = (xs, None)"
    and pos: "0 < batch_size"
    and part: "length xs mod batch_size \<noteq> 0"
  shows "\<exists>bs. input_fn fs g is_training data_dir batch_size num_epochs = Inr (bs, None)
           \<and> concat bs = xs
           \<and> length bs = length xs div batch_size + 1
           \<and> (\<forall>i < length xs div batch_size. length (bs ! i) = batch_size)
           \<and> last bs = drop (length xs div batch_size * batch_size) xs
           \<and> length (last bs) = length xs mod batch_size
           \<and> last bs \<noteq> []"
proof -
  let ?k = "length xs div batch_size"
  let ?full = "chunks ?k batch_size xs"
  let ?rest = "drop (?k * batch_size) xs"
  have le: "?k * batch_size \<le> length xs" by (rule div_mult_le_length)
  have lrest: "length ?rest = length xs mod batch_size"
    by (simp add: minus_div_mult_eq_mod)
  have ne: "?rest \<noteq> []"
  proof
    assume "?rest = []"
    then have "length ?rest = 0" by (simp only: list.size)
    then show False using lrest part by (simp only:)
  qed
  have bz: "batch_size \<noteq> 0" using pos by simp
  have b: "ds_batch batch_size (xs, None) = (?full @ [?rest], None)"
    unfolding ds_batch_def Let_def fst_conv snd_conv option.case if_not_P[OF bz] if_not_P[OF ne] ..
  have out: "input_fn fs g is_training data_dir batch_size num_epochs
               = Inr (?full @ [?rest], None)"
    by (simp only: input_fn_def files sum.case run b)
  have cat: "concat (?full @ [?rest]) = xs"
    using le by (rule concat_chunks_rest)
  have len: "length (?full @ [?rest]) = ?k + 1"
    by (simp only: length_append length_chunks list.size)
  have each: "length ((?full @ [?rest]) ! i) = batch_size" if "i < ?k" for i
  proof -
    have "i < length ?full" using that by (simp only: length_chunks)
    then have "(?full @ [?rest]) ! i = ?full ! i"
      by (simp only: nth_append if_True)
    then show ?thesis using length_nth_chunks[OF le that] by (simp only:)
  qed
  have lst: "last (?full @ [?rest]) = ?rest" by simp
  show ?thesis
  proof (intro exI conjI)
    show "input_fn fs g is_training data_dir batch_size num_epochs = Inr (?full @ [?rest], None)"
      by (rule out)
    show "concat (?full @ [?rest]) = xs" by (rule cat)
    show "length (?full @ [?rest]) = ?k + 1" by (rule len)
    show "\<forall>i < ?k. length ((?full @ [?rest]) ! i) = batch_size" using each by blast
    show "last (?full @ [?rest]) = ?rest" by (rule lst)
    show "length (last (?full @ [?rest])) = length xs mod batch_size"
      unfolding lst by (rule lrest)
    show "last (?full @ [?rest]) \<noteq> []" unfolding lst by (rule ne)
  qed
qed

theorem input_fn_keeps_final_partial_batch_witness:
  "get_filenames
     [''d/cifar-10-batches-bin'' \<mapsto> Directory,
      ''d/cifar-10-batches-bin/test_batch.bin'' \<mapsto> File (replicate 9219 0)]
     False ''d'' = Inr [''d/cifar-10-batches-bin/test_batch.bin'']
   \<and> (\<exists>xs bs.
        ds_repeat 1 (input_fn_epoch
           [''d/cifar-10-batches-bin'' \<mapsto> Directory,
            ''d/cifar-10-batches-bin/test_batch.bin'' \<mapsto> File (replicate 9219 0)]
           \<lparr>shuffle_draw = (\<lambda>epoch k. 0),
            image_draws = (\<lambda>epoch i. \<lparr>crop_row = 0, crop_col = 0, crop_chan = 0, flip_u = 0\<rparr>)\<rparr>
           False [''d/cifar-10-batches-bin/test_batch.bin'']) = (xs, None)
        \<and> length xs = 3 \<and> (0::nat) < 2 \<and> length xs mod 2 \<noteq> 0
        \<and> input_fn
             [''d/cifar-10-batches-bin'' \<mapsto> Directory,
              ''d/cifar-10-batches-bin/test_batch.bin'' \<mapsto> File (replicate 9219 0)]
             \<lparr>shuffle_draw = (\<lambda>epoch k. 0),
              image_draws = (\<lambda>epoch i. \<lparr>crop_row = 0, crop_col = 0, crop_chan = 0, flip_u = 0\<rparr>)\<rparr>
             False ''d'' 2 1 = Inr (bs, None)
        \<and> concat bs = xs \<and> length bs = 2 \<and> length (bs ! 0) = 2 \<and> length (last bs) = 1)"
proof -
  let ?fs = "[''d/cifar-10-batches-bin'' \<mapsto> Directory,
      ''d/cifar-10-batches-bin/test_batch.bin'' \<mapsto> File (replicate 9219 (0::byte))]"
  let ?g = "\<lparr>shuffle_draw = (\<lambda>epoch k. 0),
            image_draws = (\<lambda>epoch i. \<lparr>crop_row = 0, crop_col = 0, crop_chan = 0, flip_u = 0\<rparr>)\<rparr>"
  let ?f = "''d/cifar-10-batches-bin/test_batch.bin''"
  have files: "get_filenames ?fs False ''d'' = Inr [?f]"
    by (simp add: get_filenames_def path_join_def path_exists_def Let_def)
  have d: "(9219::nat) div 3073 = 3" "(9219::nat) mod 3073 = 0" by simp_all
  have rd: "record_dataset ?fs [?f] = (chunks 3 3073 (replicate 9219 0), None)"
    by (simp add: record_dataset_def dataset_record_bytes_eq read_records_def d)
  from input_fn_epoch_eval[OF rd, of ?g 0] obtain xs where
    ep: "input_fn_epoch ?fs ?g False [?f] 0 = (xs, None)"
    and lx: "length xs = length (chunks 3 3073 (replicate 9219 (0::byte)))"
    by blast
  have l3: "length xs = 3" using lx by (simp only: length_chunks)
  have run: "ds_repeat 1 (input_fn_epoch ?fs ?g False [?f]) = (xs, None)"
    using ep by (rule ds_repeat_once)
  have pos: "(0::nat) < 2" by simp
  have part: "length xs mod 2 \<noteq> 0" unfolding l3 by simp
  from input_fn_keeps_final_partial_batch [OF files run pos part] obtain bs where
    out: "input_fn ?fs ?g False ''d'' 2 1 = Inr (bs, None)"
    and cat: "concat bs = xs"
    and len: "length bs = length xs div 2 + 1"
    and each: "\<forall>i < length xs div 2. length (bs ! i) = 2"
    and lst: "length (last bs) = length xs mod 2"
    by blast
  have len2: "length bs = 2" using len unfolding l3 by simp
  have b0: "length (bs ! 0) = 2" using each unfolding l3 by simp
  have l1: "length (last bs) = 1" using lst unfolding l3 by simp
  have "ds_repeat 1 (input_fn_epoch ?fs ?g False [?f]) = (xs, None)
        \<and> length xs = 3 \<and> (0::nat) < 2 \<and> length xs mod 2 \<noteq> 0
        \<and> input_fn ?fs ?g False ''d'' 2 1 = Inr (bs, None)
        \<and> concat bs = xs \<and> length bs = 2 \<and> length (bs ! 0) = 2 \<and> length (last bs) = 1"
    using run l3 pos part out cat len2 b0 l1 by blast
  then have "\<exists>xs bs. ds_repeat 1 (input_fn_epoch ?fs ?g False [?f]) = (xs, None)
        \<and> length xs = 3 \<and> (0::nat) < 2 \<and> length xs mod 2 \<noteq> 0
        \<and> input_fn ?fs ?g False ''d'' 2 1 = Inr (bs, None)
        \<and> concat bs = xs \<and> length bs = 2 \<and> length (bs ! 0) = 2 \<and> length (last bs) = 1"
    by blast
  with files show ?thesis by (rule conjI)
qed

text \<open>
  Claim C10. The record length \<open>record_dataset\<close> cuts the files with is the record
  length of \<open>parse_record\<close>, \<open>1 + 32 * 32 * 3 = 3073\<close>. Hence every record of the
  dataset has that length, whatever the files hold, and so has every element of the
  dataset that \<open>input_fn\<close> maps \<open>parse_record\<close> over, shuffled for training or not; and
  \<open>parse_record\<close> decodes each of them without error.
\<close>

theorem record_length_agrees:
  "dataset_record_bytes = record_bytes
   \<and> record_bytes = 1 + 32 * 32 * 3
   \<and> record_bytes = 3073
   \<and> (\<forall>r \<in> set (fst (record_dataset fs filenames)). length r = record_bytes)
   \<and> (\<forall>r \<in> set (fst (if is_training
                          then ds_shuffle NUM_IMAGES_train (shuffle_draw g epoch)
                                 (record_dataset fs filenames)
                          else record_dataset fs filenames)).
         length r = record_bytes \<and> (\<exists>s. parse_record r = Inr s))"
proof -
  have a: "dataset_record_bytes = record_bytes"
    unfolding dataset_record_bytes_eq record_bytes_eq ..
  have b: "record_bytes = 1 + 32 * 32 * 3" unfolding record_bytes_eq by simp
  have all: "\<forall>r \<in> set (fst (record_dataset fs filenames)). length r = 3073"
    by (rule record_dataset_lengths)
  have sub: "set (fst (if is_training
                          then ds_shuffle NUM_IMAGES_train (shuffle_draw g epoch)
                                 (record_dataset fs filenames)
                          else record_dataset fs filenames))
               \<subseteq> set (fst (record_dataset fs filenames))"
  proof (cases is_training)
    case True
    show ?thesis unfolding if_P[OF True] by (rule ds_shuffle_subset)
  next
    case False
    show ?thesis unfolding if_not_P[OF False] by (rule subset_refl)
  qed
  have fed: "\<forall>r \<in> set (fst (if is_training
                          then ds_shuffle NUM_IMAGES_train (shuffle_draw g epoch)
                                 (record_dataset fs filenames)
                          else record_dataset fs filenames)).
         length r = 3073 \<and> (\<exists>s. parse_record r = Inr s)"
  proof
    fix r assume "r \<in> set (fst (if is_training
                          then ds_shuffle NUM_IMAGES_train (shuffle_draw g epoch)
                                 (record_dataset fs filenames)
                          else record_dataset fs filenames))"
    then have "r \<in> set (fst (record_dataset fs filenames))" using sub by blast
    then have l: "length r = 3073" using all by blast
    then have "\<exists>s. parse_record r = Inr s" by (rule parse_record_total)
    with l show "length r = 3073 \<and> (\<exists>s. parse_record r = Inr s)" by (rule conjI)
  qed
  show ?thesis
    unfolding record_bytes_eq[symmetric, THEN eq_reflection]
    using a b record_bytes_eq all fed unfolding record_bytes_eq by blast
qed

theorem record_length_agrees_witness:
  "length (fst (record_dataset [''f'' \<mapsto> File (replicate 6146 7)] [''f''])) = 2
   \<and> length (fst (record_dataset [''f'' \<mapsto> File (replicate 6146 7)] [''f'']) ! 1) = 3073
   \<and> \<not> isl (parse_record
               (fst (record_dataset [''f'' \<mapsto> File (replicate 6146 7)] [''f'']) ! 1))"
proof -
  let ?fs = "[''f'' \<mapsto> File (replicate 6146 (7::byte))]"
  let ?g = "\<lparr>shuffle_draw = (\<lambda>epoch k. 0),
            image_draws = (\<lambda>epoch i. \<lparr>crop_row = 0, crop_col = 0, crop_chan = 0, flip_u = 0\<rparr>)\<rparr>"
  have d: "(6146::nat) div 3073 = 2" "(6146::nat) mod 3073 = 0" by simp_all
  have rd: "record_dataset ?fs [''f''] = (chunks 2 3073 (replicate 6146 7), None)"
    by (simp add: record_dataset_def dataset_record_bytes_eq read_records_def d)
  have two: "length (fst (record_dataset ?fs [''f''])) = 2"
    unfolding rd fst_conv by (rule length_chunks)
  have "1 < length (fst (record_dataset ?fs [''f'']))" unfolding two by simp
  then have mem: "fst (record_dataset ?fs [''f'']) ! 1 \<in> set (fst (record_dataset ?fs [''f'']))"
    by (rule nth_mem)
  have fed: "\<forall>r \<in> set (fst (if False
                          then ds_shuffle NUM_IMAGES_train (shuffle_draw ?g 0)
                                 (record_dataset ?fs [''f''])
                          else record_dataset ?fs [''f''])).
         length r = record_bytes \<and> (\<exists>s. parse_record r = Inr s)"
    and rb: "record_bytes = 3073"
    using record_length_agrees [of ?fs "[''f'']" False ?g 0] by blast+
  have "\<forall>r \<in> set (fst (record_dataset ?fs [''f''])).
         length r = 3073 \<and> (\<exists>s. parse_record r = Inr s)"
    using fed unfolding if_False rb .
  with mem have one: "length (fst (record_dataset ?fs [''f'']) ! 1) = 3073
      \<and> (\<exists>s. parse_record (fst (record_dataset ?fs [''f'']) ! 1) = Inr s)"
    by blast
  then obtain s where "parse_record (fst (record_dataset ?fs [''f'']) ! 1) = Inr s" by blast
  then have "\<not> isl (parse_record (fst (record_dataset ?fs [''f'']) ! 1))" by simp
  with two one show ?thesis by blast
qed

end
